theory Spec2Isabelle
  imports Main "HOL-Library.Word" "HOL-Library.Mapping" "HOL-Library.AList_Mapping"
begin

section \<open>Whisper topics and the topic matcher (whisper/topic.go)\<close>

subsection \<open>Go values: bytes, panics, slices\<close>

type_synonym byte = "8 word"

text \<open>
  The run-time panics the code of this file can raise: an index outside a slice, a slice
  expression whose bound exceeds the operand, and an assignment to an entry of a nil map.
  A function that can reach one of them returns \<open>panic + 'a\<close>, \<open>Inl\<close> being the panic.
\<close>

datatype panic = IndexOutOfRange | SliceBoundsOutOfRange | AssignToNilMap

text \<open>\<open>xs[i]\<close> read from a slice.\<close>

definition index_get :: "'a list \<Rightarrow> nat \<Rightarrow> panic + 'a" where
  "index_get xs i = (if i < length xs then Inr (xs ! i) else Inl IndexOutOfRange)"

text \<open>\<open>xs[i] = v\<close> written to a slice.\<close>

definition index_set :: "'a list \<Rightarrow> nat \<Rightarrow> 'a \<Rightarrow> panic + 'a list" where
  "index_set xs i v = (if i < length xs then Inr (xs[i := v]) else Inl IndexOutOfRange)"

text \<open>
  \<open>xs[:n]\<close>. Go bounds the expression by the capacity of \<open>xs\<close>; the model has no spare
  capacity, so the bound is the length.
\<close>

definition slice_to :: "'a list \<Rightarrow> nat \<Rightarrow> panic + 'a list" where
  "slice_to xs n = (if n \<le> length xs then Inr (take n xs) else Inl SliceBoundsOutOfRange)"

subsection \<open>Topic\<close>

text \<open>\<open>type Topic [4]byte\<close>: an array of exactly four bytes, compared byte by byte.\<close>

datatype Topic = Topic byte byte byte byte

text \<open>\<open>self[:]\<close>: the four bytes of a topic as a slice.\<close>

fun topic_bytes :: "Topic \<Rightarrow> byte list" where
  "topic_bytes (Topic a b c d) = [a, b, c, d]"

text \<open>\<open>[4]byte{}\<close>: the zero value of the array.\<close>

definition zero_topic :: Topic where
  "zero_topic = Topic 0 0 0 0"

text \<open>
  \<open>copy(prefix[:], src)\<close>: the builtin overwrites the first \<open>min 4 (len src)\<close> bytes of the
  array and leaves the others as they were.
\<close>

fun copy_topic :: "Topic \<Rightarrow> byte list \<Rightarrow> Topic" where
  "copy_topic (Topic a b c d) [] = Topic a b c d"
| "copy_topic (Topic a b c d) [w] = Topic w b c d"
| "copy_topic (Topic a b c d) [w, x] = Topic w x c d"
| "copy_topic (Topic a b c d) [w, x, y] = Topic w x y d"
| "copy_topic (Topic a b c d) (w # x # y # z # rest) = Topic w x y z"

text \<open>
  \<open>NewTopic\<close>. The digest function \<open>crypto.Keccak256\<close> belongs to another package; it is the
  parameter \<open>Keccak256\<close>, a function from byte strings to byte strings.
\<close>

definition NewTopic :: "(byte list \<Rightarrow> byte list) \<Rightarrow> byte list \<Rightarrow> panic + Topic" where
  "NewTopic Keccak256 data =
     (case slice_to (Keccak256 data) 4 of
        Inl p \<Rightarrow> Inl p
      | Inr digest4 \<Rightarrow> Inr (copy_topic zero_topic digest4))"

text \<open>
  \<open>NewTopics\<close>: the slice \<open>topics\<close> is made with \<open>len(data)\<close> zero topics, then the loop
  \<open>for i, element := range data\<close> stores \<open>NewTopic(element)\<close> at index \<open>i\<close>.
\<close>

fun NewTopics_loop ::
  "(byte list \<Rightarrow> byte list) \<Rightarrow> Topic list \<Rightarrow> nat \<Rightarrow> byte list list \<Rightarrow> panic + Topic list" where
  "NewTopics_loop Keccak256 topics i [] = Inr topics"
| "NewTopics_loop Keccak256 topics i (element # rest) =
     (case NewTopic Keccak256 element of
        Inl p \<Rightarrow> Inl p
      | Inr t \<Rightarrow>
          (case index_set topics i t of
             Inl p \<Rightarrow> Inl p
           | Inr topics' \<Rightarrow> NewTopics_loop Keccak256 topics' (Suc i) rest))"

definition NewTopics :: "(byte list \<Rightarrow> byte list) \<Rightarrow> byte list list \<Rightarrow> panic + Topic list" where
  "NewTopics Keccak256 data =
     NewTopics_loop Keccak256 (replicate (length data) zero_topic) 0 data"

text \<open>
  \<open>Topic.String\<close>: \<open>string(self[:])\<close>, the conversion of a byte slice to a string, which
  keeps every byte. A Go string is a sequence of bytes, here a list of 8-bit characters.
  The receiver is a pointer; \<open>self\<close> is the topic it points to.
\<close>

definition String :: "Topic \<Rightarrow> string" where
  "String self = map (\<lambda>b. char_of (unat b)) (topic_bytes self)"

subsection \<open>topicMatcher\<close>

text \<open>
  \<open>map[Topic]struct{}\<close>: a map is a reference that is either nil or a table. Reading a nil
  map behaves as reading an empty table; assigning to an entry of a nil map panics.
\<close>

datatype topic_set = NilMap | Table "(Topic, unit) mapping"

fun map_len :: "topic_set \<Rightarrow> nat" where
  "map_len NilMap = 0"
| "map_len (Table m) = Mapping.size m"

fun map_lookup :: "topic_set \<Rightarrow> Topic \<Rightarrow> unit option" where
  "map_lookup NilMap k = None"
| "map_lookup (Table m) k = Mapping.lookup m k"

fun map_assign :: "topic_set \<Rightarrow> Topic \<Rightarrow> unit \<Rightarrow> panic + topic_set" where
  "map_assign NilMap k v = Inl AssignToNilMap"
| "map_assign (Table m) k v = Inr (Table (Mapping.update k v m))"

text \<open>
  \<open>type topicMatcher struct\<close>. The methods receive a pointer to the struct, and
  \<open>newTopicMatcher\<close> returns the address of a fresh one; \<open>self\<close> is the struct pointed to.
\<close>

record topicMatcher =
  conditions :: "topic_set list"

text \<open>
  The inner loop of \<open>newTopicMatcher\<close>, \<open>for _, topic := range condition\<close>, with body
  \<open>matcher[i][topic] = struct{}{}\<close>: the map at index \<open>i\<close> is read and the topic stored in it.
\<close>

fun newTopicMatcher_fill :: "topic_set list \<Rightarrow> nat \<Rightarrow> Topic list \<Rightarrow> panic + topic_set list" where
  "newTopicMatcher_fill matcher i [] = Inr matcher"
| "newTopicMatcher_fill matcher i (topic # rest) =
     (case index_get matcher i of
        Inl p \<Rightarrow> Inl p
      | Inr m \<Rightarrow>
          (case map_assign m topic () of
             Inl p \<Rightarrow> Inl p
           | Inr m' \<Rightarrow> newTopicMatcher_fill (matcher[i := m']) i rest))"

text \<open>
  The outer loop, \<open>for i, condition := range topics\<close>: \<open>matcher[i] = make(map[Topic]struct{})\<close>
  and then the inner loop.
\<close>

fun newTopicMatcher_loop ::
  "topic_set list \<Rightarrow> nat \<Rightarrow> Topic list list \<Rightarrow> panic + topic_set list" where
  "newTopicMatcher_loop matcher i [] = Inr matcher"
| "newTopicMatcher_loop matcher i (condition # rest) =
     (case index_set matcher i (Table Mapping.empty) of
        Inl p \<Rightarrow> Inl p
      | Inr matcher' \<Rightarrow>
          (case newTopicMatcher_fill matcher' i condition of
             Inl p \<Rightarrow> Inl p
           | Inr matcher'' \<Rightarrow> newTopicMatcher_loop matcher'' (Suc i) rest))"

text \<open>
  \<open>newTopicMatcher\<close>: \<open>make([]map[Topic]struct{}, len(topics))\<close> is a slice of nil maps.
\<close>

definition newTopicMatcher :: "Topic list list \<Rightarrow> panic + topicMatcher" where
  "newTopicMatcher topics =
     (case newTopicMatcher_loop (replicate (length topics) NilMap) 0 topics of
        Inl p \<Rightarrow> Inl p
      | Inr matcher \<Rightarrow> Inr \<lparr>conditions = matcher\<rparr>)"

text \<open>
  The loop of \<open>Matches\<close>, from index \<open>i\<close> on:
  \<open>for ; i < len(topics) && i < len(self.conditions); i++\<close>. A condition of length 0 is
  skipped; otherwise a topic that is not a key of the condition ends the loop with false.
\<close>

function Matches_loop :: "topicMatcher \<Rightarrow> Topic list \<Rightarrow> nat \<Rightarrow> panic + bool" where
  "Matches_loop self topics i =
     (if i < length topics \<and> i < length (conditions self) then
        (case index_get (conditions self) i of
           Inl p \<Rightarrow> Inl p
         | Inr c \<Rightarrow>
             if map_len c > 0 then
               (case index_get topics i of
                  Inl p \<Rightarrow> Inl p
                | Inr t \<Rightarrow>
                    (case map_lookup c t of
                       None \<Rightarrow> Inr False
                     | Some ok \<Rightarrow> Matches_loop self topics (Suc i)))
             else Matches_loop self topics (Suc i))
      else Inr True)"
  by pat_completeness auto
termination
  by (relation "measure (\<lambda>(self, topics, i). length topics - i)") auto

definition Matches :: "topicMatcher \<Rightarrow> Topic list \<Rightarrow> panic + bool" where
  "Matches self topics =
     (if length (conditions self) > length topics then Inr False
      else Matches_loop self topics 0)"

subsection \<open>Notions used to state and prove the properties\<close>

text \<open>
  The table that the two loops of \<open>newTopicMatcher\<close> build for one condition: the topics of
  the condition stored one after the other, starting from the empty table.
\<close>

definition table_of :: "Topic list \<Rightarrow> topic_set" where
  "table_of condition =
     Table (fold (\<lambda>topic. Mapping.update topic ()) condition Mapping.empty)"

text \<open>
  What one turn of the loop of \<open>Matches\<close> tests: the condition is empty, or the topic is
  one of its keys.
\<close>

definition position_ok :: "topic_set \<Rightarrow> Topic \<Rightarrow> bool" where
  "position_ok c t = (map_len c = 0 \<or> map_lookup c t \<noteq> None)"

text \<open>
  Exchanging the topics at two positions of a candidate list; a position outside the list
  leaves it as it is. No function of the source does this: it is the operation of which the
  order-sensitivity property speaks.
\<close>

definition swap_positions :: "Topic list \<Rightarrow> nat \<Rightarrow> nat \<Rightarrow> Topic list" where
  "swap_positions topics i j =
     (if i < length topics \<and> j < length topics
      then topics[i := topics ! j, j := topics ! i] else topics)"

section \<open>Properties\<close>

declare Matches_loop.simps [simp del]

subsection \<open>Compilation always succeeds\<close>

lemma newTopicMatcher_fill_ok:
  "i < length matcher \<Longrightarrow> matcher ! i = Table m \<Longrightarrow>
   newTopicMatcher_fill matcher i condition =
     Inr (matcher[i := Table (fold (\<lambda>topic. Mapping.update topic ()) condition m)])"
proof (induction condition arbitrary: matcher m)
  case Nil
  have "matcher[i := matcher ! i] = matcher" by (rule list_update_id)
  with Nil show ?case by simp
next
  case (Cons topic rest)
  then show ?case by (simp add: index_get_def)
qed

lemma newTopicMatcher_loop_ok:
  "i + length rest \<le> length matcher \<Longrightarrow>
   newTopicMatcher_loop matcher i rest =
     Inr (take i matcher @ map table_of rest @ drop (i + length rest) matcher)"
proof (induction rest arbitrary: matcher i)
  case Nil
  then show ?case by simp
next
  case (Cons condition rest)
  then have i: "i < length matcher" by simp
  have "newTopicMatcher_fill (matcher[i := Table Mapping.empty]) i condition =
      Inr (matcher[i := table_of condition])"
    using i by (simp add: newTopicMatcher_fill_ok table_of_def)
  moreover have "take (Suc i) (matcher[i := table_of condition]) =
      take i matcher @ [table_of condition]"
    using i by (simp add: take_Suc_conv_app_nth)
  ultimately show ?case using Cons i
    by (simp add: index_set_def)
qed

lemma newTopicMatcher_ok:
  "newTopicMatcher topics = Inr \<lparr>conditions = map table_of topics\<rparr>"
  by (simp add: newTopicMatcher_def newTopicMatcher_loop_ok)

subsection \<open>The compiled tables\<close>

lemma keys_fold_update:
  "Mapping.keys (fold (\<lambda>topic. Mapping.update topic ()) condition m) =
     Mapping.keys m \<union> set condition"
  by (induction condition arbitrary: m) auto

lemma lookup_fold_update:
  "Mapping.lookup (fold (\<lambda>topic. Mapping.update topic ()) condition m) t =
     (if t \<in> set condition then Some () else Mapping.lookup m t)"
  by (induction condition arbitrary: m) (auto simp: lookup_update')

lemma map_len_table_of: "map_len (table_of condition) = card (set condition)"
  by (simp add: table_of_def Mapping.size_def keys_fold_update)

lemma map_lookup_table_of:
  "map_lookup (table_of condition) t = (if t \<in> set condition then Some () else None)"
  by (simp add: table_of_def lookup_fold_update)

lemma position_ok_table_of:
  "position_ok (table_of condition) t \<longleftrightarrow> condition = [] \<or> t \<in> set condition"
  by (simp add: position_ok_def map_len_table_of map_lookup_table_of)

subsection \<open>The loop of Matches\<close>

lemma Matches_loop_done:
  "\<not> (i < length topics \<and> i < length (conditions self)) \<Longrightarrow>
   Matches_loop self topics i = Inr True"
  by (subst Matches_loop.simps) auto

lemma Matches_loop_step:
  assumes "i < length topics" and "i < length (conditions self)"
  shows "Matches_loop self topics i =
           (if position_ok (conditions self ! i) (topics ! i)
            then Matches_loop self topics (Suc i) else Inr False)"
  using assms
  by (subst Matches_loop.simps) (auto simp: index_get_def position_ok_def split: option.splits)

lemma Matches_loop_eq:
  "Matches_loop self topics i =
     Inr (\<forall>j. i \<le> j \<and> j < length topics \<and> j < length (conditions self) \<longrightarrow>
            position_ok (conditions self ! j) (topics ! j))"
proof (induction "length topics - i" arbitrary: i)
  case 0
  then have "\<not> (i < length topics \<and> i < length (conditions self))" by simp
  moreover from 0 have "\<And>j. i \<le> j \<Longrightarrow> \<not> j < length topics" by simp
  ultimately show ?case by (auto simp: Matches_loop_done)
next
  case (Suc n)
  let ?ok = "\<lambda>j. position_ok (conditions self ! j) (topics ! j)"
  let ?inside = "\<lambda>j. j < length topics \<and> j < length (conditions self)"
  from Suc.hyps(2) have IH: "Matches_loop self topics (Suc i) =
      Inr (\<forall>j. Suc i \<le> j \<and> ?inside j \<longrightarrow> ?ok j)"
    by (intro Suc.hyps(1)) simp
  show ?case
  proof (cases "?inside i")
    case False
    then show ?thesis by (auto simp: Matches_loop_done)
  next
    case True
    have "(\<forall>j. i \<le> j \<and> ?inside j \<longrightarrow> ?ok j) \<longleftrightarrow>
          ?ok i \<and> (\<forall>j. Suc i \<le> j \<and> ?inside j \<longrightarrow> ?ok j)"
      using True by (metis Suc_leI le_neq_implies_less Suc_leD order_refl)
    with True IH show ?thesis by (simp add: Matches_loop_step)
  qed
qed

lemma Matches_eq:
  "Matches self topics =
     Inr (length (conditions self) \<le> length topics \<and>
          (\<forall>j < length (conditions self). position_ok (conditions self ! j) (topics ! j)))"
  by (auto simp: Matches_def Matches_loop_eq)

lemma Matches_table_of:
  "Matches \<lparr>conditions = map table_of conds\<rparr> topics =
     Inr (length conds \<le> length topics \<and>
          (\<forall>j < length conds. conds ! j = [] \<or> topics ! j \<in> set (conds ! j)))"
  by (simp add: Matches_eq position_ok_table_of cong: conj_cong)

subsection \<open>The model on concrete inputs\<close>

text \<open>
  The definitions run. The sample matcher of the source's documentation, on candidate lists
  that match, that carry one more topic, that fail at the fourth, at the second position,
  and that are too short:
\<close>

lemma sample_matcher_evaluates:
  "(case newTopicMatcher [[Topic 1 0 0 1, Topic 1 0 0 2, Topic 1 0 0 3], [Topic 2 0 0 0], [],
                          [Topic 4 0 0 1, Topic 4 0 0 2]] of
      Inl p \<Rightarrow> []
    | Inr m \<Rightarrow>
        [Matches m [Topic 1 0 0 1, Topic 2 0 0 0, Topic 9 9 9 9, Topic 4 0 0 1],
         Matches m [Topic 1 0 0 3, Topic 2 0 0 0, Topic 0 0 0 0, Topic 4 0 0 2, Topic 7 7 7 7],
         Matches m [Topic 1 0 0 1, Topic 2 0 0 0, Topic 9 9 9 9, Topic 4 0 0 3],
         Matches m [Topic 1 0 0 1, Topic 2 0 0 1, Topic 9 9 9 9, Topic 4 0 0 1],
         Matches m [Topic 1 0 0 1, Topic 2 0 0 0, Topic 9 9 9 9],
         Matches m []]) =
   [Inr True, Inr True, Inr False, Inr False, Inr False, Inr False]"
  by code_simp

text \<open>
  Topic derivation with a stand-in digest that pads or cuts its input to 32 bytes, and with
  one that returns its input, which is too short for the slice expression \<open>[:4]\<close> on the
  second item:
\<close>

lemma NewTopics_evaluates:
  "NewTopics (\<lambda>d. take 32 (d @ replicate 32 9)) [[1, 2, 3, 4, 5], [], [1, 2, 3, 4, 5], [8]] =
     Inr [Topic 1 2 3 4, Topic 9 9 9 9, Topic 1 2 3 4, Topic 8 9 9 9] \<and>
   NewTopics (\<lambda>d. d) [[1, 2, 3, 4, 5], [6, 7]] = Inl SliceBoundsOutOfRange \<and>
   String (Topic 72 105 0 255) = [CHR ''H'', CHR ''i'', CHR 0x00, CHR 0xFF]"
  by code_simp

section \<open>The claims about the matcher\<close>

text \<open>
  C1. For every matcher compiled from \<open>N\<close> condition sets and every candidate topic list of
  length \<open>M\<close>: compilation succeeds, and \<open>Matches\<close> returns false if \<open>N > M\<close>; otherwise it
  returns true if and only if, for every position \<open>i\<close> from \<open>0\<close> to \<open>N - 1\<close>, the acceptance set
  of condition \<open>i\<close> was empty at compile time or the candidate topic at \<open>i\<close> is a member of
  it. The boolean returned is the conjunction of \<open>N \<le> M\<close> with the positional test, which
  is false when \<open>N > M\<close> and the positional test otherwise.
\<close>

theorem Matches_compiled:
  "\<exists>m. newTopicMatcher conds = Inr m \<and>
       Matches m topics =
         Inr (length conds \<le> length topics \<and>
              (\<forall>i < length conds. set (conds ! i) = {} \<or> topics ! i \<in> set (conds ! i)))"
  by (simp add: newTopicMatcher_ok Matches_table_of)

theorem Matches_compiled_witness:
  "\<exists>m. newTopicMatcher [[Topic 1 2 3 4, Topic 5 6 7 8], []] = Inr m \<and>
       Matches m [Topic 5 6 7 8, Topic 0 0 0 9] = Inr True \<and>
       Matches m [Topic 0 0 0 9, Topic 5 6 7 8] = Inr False \<and>
       Matches m [Topic 5 6 7 8] = Inr False"
  using
    Matches_compiled [of "[[Topic 1 2 3 4, Topic 5 6 7 8], []]" "[Topic 5 6 7 8, Topic 0 0 0 9]"]
    Matches_compiled [of "[[Topic 1 2 3 4, Topic 5 6 7 8], []]" "[Topic 0 0 0 9, Topic 5 6 7 8]"]
    Matches_compiled [of "[[Topic 1 2 3 4, Topic 5 6 7 8], []]" "[Topic 5 6 7 8]"]
  by (auto simp: nth_Cons' less_Suc_eq numeral_2_eq_2)

text \<open>
  C2. A matcher compiled from zero conditions matches every candidate topic list, the empty
  list included; and \<open>Matches\<close> never fails: for every matcher and every candidate list it
  returns a boolean, not a panic.
\<close>

theorem Matches_no_conditions:
  "(\<exists>m. newTopicMatcher [] = Inr m \<and> (\<forall>topics. Matches m topics = Inr True)) \<and>
   (\<exists>b. Matches self topics = Inr b)"
  by (simp add: newTopicMatcher_ok Matches_eq)

text \<open>
  C3. Extra trailing topics never affect the result: when the candidate list has at least as
  many topics as the matcher has conditions, appending any further topics to it leaves the
  result of \<open>Matches\<close> unchanged.
\<close>

theorem Matches_extra_topics:
  assumes "length conds \<le> length topics"
  shows "\<exists>m. newTopicMatcher conds = Inr m \<and> Matches m (topics @ extra) = Matches m topics"
  using assms by (simp add: newTopicMatcher_ok Matches_table_of nth_append cong: conj_cong)

theorem Matches_extra_topics_witness:
  "length [[Topic 1 2 3 4], []] \<le> length [Topic 1 2 3 4, Topic 0 0 0 9] \<and>
   (\<exists>m. newTopicMatcher [[Topic 1 2 3 4], []] = Inr m \<and>
        Matches m ([Topic 1 2 3 4, Topic 0 0 0 9] @ [Topic 7 7 7 7, Topic 1 2 3 4]) =
        Matches m [Topic 1 2 3 4, Topic 0 0 0 9])"
  using Matches_extra_topics [of "[[Topic 1 2 3 4], []]" "[Topic 1 2 3 4, Topic 0 0 0 9]"
      "[Topic 7 7 7 7, Topic 1 2 3 4]"]
  by simp

text \<open>
  C4. An empty acceptance set compiles to a wildcard: the matcher compiled from a single
  empty condition matches the one-element list \<open>[T]\<close> for every topic \<open>T\<close>. More generally,
  a position \<open>i\<close> whose acceptance set was empty at compile time is satisfied whatever the
  candidate topic there: the result of \<open>Matches\<close> is the test of the list length and of every
  position other than \<open>i\<close>, so position \<open>i\<close> never makes it false, and replacing the candidate
  topic at \<open>i\<close> by any topic \<open>T\<close> leaves the result unchanged.
\<close>

theorem Matches_wildcard:
  "(\<exists>m. newTopicMatcher [[]] = Inr m \<and> Matches m [T] = Inr True) \<and>
   (i < length conds \<and> set (conds ! i) = {} \<longrightarrow>
      (\<exists>m. newTopicMatcher conds = Inr m \<and>
           Matches m topics =
             Inr (length conds \<le> length topics \<and>
                  (\<forall>j < length conds. j \<noteq> i \<longrightarrow>
                     set (conds ! j) = {} \<or> topics ! j \<in> set (conds ! j))) \<and>
           Matches m (topics[i := T]) = Matches m topics))"
proof -
  let ?m = "\<lparr>conditions = map table_of conds\<rparr>"
  have single: "Matches \<lparr>conditions = map table_of [[]]\<rparr> [T] = Inr True"
    unfolding Matches_table_of by simp
  have general: "Matches ?m topics =
        Inr (length conds \<le> length topics \<and>
             (\<forall>j < length conds. j \<noteq> i \<longrightarrow>
                set (conds ! j) = {} \<or> topics ! j \<in> set (conds ! j))) \<and>
      Matches ?m (topics[i := T]) = Matches ?m topics"
    if i: "i < length conds" and empty: "set (conds ! i) = {}"
  proof -
    from empty have wild: "conds ! i = []" by simp
    have "(\<forall>j < length conds. conds ! j = [] \<or> ts ! j \<in> set (conds ! j)) \<longleftrightarrow>
          (\<forall>j < length conds. j \<noteq> i \<longrightarrow> set (conds ! j) = {} \<or> ts ! j \<in> set (conds ! j))"
      for ts :: "Topic list"
      using wild by auto
    then have eq: "Matches ?m ts =
        Inr (length conds \<le> length ts \<and>
             (\<forall>j < length conds. j \<noteq> i \<longrightarrow>
                set (conds ! j) = {} \<or> ts ! j \<in> set (conds ! j)))" for ts
      by (simp add: Matches_table_of)
    have "Matches ?m (topics[i := T]) = Matches ?m topics"
      unfolding eq by (simp cong: conj_cong imp_cong)
    with eq [of topics] show ?thesis by simp
  qed
  from single general show ?thesis by (simp add: newTopicMatcher_ok)
qed

theorem Matches_wildcard_witness:
  "(1::nat) < length [[Topic 1 2 3 4], [], [Topic 5 6 7 8]] \<and>
   set ([[Topic 1 2 3 4], [], [Topic 5 6 7 8]] ! 1) = {} \<and>
   (\<exists>m. newTopicMatcher [[Topic 1 2 3 4], [], [Topic 5 6 7 8]] = Inr m \<and>
        Matches m [Topic 1 2 3 4, Topic 0 0 0 0, Topic 5 6 7 8] = Inr True \<and>
        Matches m [Topic 1 2 3 4, Topic 9 9 9 9, Topic 5 6 7 8] = Inr True \<and>
        Matches m [Topic 1 2 3 4, Topic 9 9 9 9, Topic 0 0 0 0] = Inr False)"
  using
    Matches_wildcard [of "Topic 9 9 9 9" 1 "[[Topic 1 2 3 4], [], [Topic 5 6 7 8]]"
      "[Topic 1 2 3 4, Topic 0 0 0 0, Topic 5 6 7 8]"]
    Matches_wildcard [of "Topic 9 9 9 9" 1 "[[Topic 1 2 3 4], [], [Topic 5 6 7 8]]"
      "[Topic 1 2 3 4, Topic 9 9 9 9, Topic 0 0 0 0]"]
  by (auto simp: nth_Cons' less_Suc_eq)

text \<open>
  C5. The sample matcher of the source's documentation, compiled from the conditions
  \<open>[{A1, A2, A3}, {B}, {}, {D1, D2}]\<close>: it matches \<open>[A1, B, X, D1]\<close> for every topic \<open>X\<close>; it
  does not match \<open>[A1, B, X, D3]\<close> when \<open>D3\<close> is neither \<open>D1\<close> nor \<open>D2\<close>; it does not match
  \<open>[A1, B, X]\<close>, which carries three topics for four conditions. And the matcher compiled from
  the single condition \<open>{E, F}\<close> does not match \<open>[C]\<close> when \<open>C\<close> is neither \<open>E\<close> nor \<open>F\<close>.
\<close>

theorem Matches_sample:
  assumes "D3 \<notin> {D1, D2}" and "C \<notin> {E, F}"
  shows "(\<exists>m. newTopicMatcher [[A1, A2, A3], [B], [], [D1, D2]] = Inr m \<and>
              Matches m [A1, B, X, D1] = Inr True \<and>
              Matches m [A1, B, X, D3] = Inr False \<and>
              Matches m [A1, B, X] = Inr False) \<and>
         (\<exists>m. newTopicMatcher [[E, F]] = Inr m \<and> Matches m [C] = Inr False)"
proof -
  let ?sample = "[[A1, A2, A3], [B], [], [D1, D2]]"
  have four: "(\<forall>j < length ?sample. P j) \<longleftrightarrow> P 0 \<and> P 1 \<and> P 2 \<and> P 3" for P
    by (auto simp: less_Suc_eq numeral_3_eq_3 numeral_2_eq_2)
  have "Matches \<lparr>conditions = map table_of ?sample\<rparr> [A1, B, X, D1] = Inr True"
    unfolding Matches_table_of four by simp
  moreover have "Matches \<lparr>conditions = map table_of ?sample\<rparr> [A1, B, X, D3] = Inr False"
    unfolding Matches_table_of four using assms(1) by simp
  moreover have "Matches \<lparr>conditions = map table_of ?sample\<rparr> [A1, B, X] = Inr False"
    unfolding Matches_table_of by simp
  moreover have "Matches \<lparr>conditions = map table_of [[E, F]]\<rparr> [C] = Inr False"
    unfolding Matches_table_of using assms(2) by simp
  ultimately show ?thesis by (simp add: newTopicMatcher_ok)
qed

theorem Matches_sample_witness:
  "Topic 4 0 0 3 \<notin> {Topic 4 0 0 1, Topic 4 0 0 2} \<and>
   Topic 0 0 0 3 \<notin> {Topic 0 0 0 1, Topic 0 0 0 2} \<and>
   (\<exists>m. newTopicMatcher [[Topic 1 0 0 1, Topic 1 0 0 2, Topic 1 0 0 3], [Topic 2 0 0 0], [],
                          [Topic 4 0 0 1, Topic 4 0 0 2]] = Inr m \<and>
        Matches m [Topic 1 0 0 1, Topic 2 0 0 0, Topic 9 9 9 9, Topic 4 0 0 1] = Inr True \<and>
        Matches m [Topic 1 0 0 1, Topic 2 0 0 0, Topic 9 9 9 9, Topic 4 0 0 3] = Inr False \<and>
        Matches m [Topic 1 0 0 1, Topic 2 0 0 0, Topic 9 9 9 9] = Inr False) \<and>
   (\<exists>m. newTopicMatcher [[Topic 0 0 0 1, Topic 0 0 0 2]] = Inr m \<and>
        Matches m [Topic 0 0 0 3] = Inr False)"
  using Matches_sample [of "Topic 4 0 0 3" "Topic 4 0 0 1" "Topic 4 0 0 2"
      "Topic 0 0 0 3" "Topic 0 0 0 1" "Topic 0 0 0 2"
      "Topic 1 0 0 1" "Topic 1 0 0 2" "Topic 1 0 0 3" "Topic 2 0 0 0" "Topic 9 9 9 9"]
  by simp

subsection \<open>Exchanging two candidate topics\<close>




text \<open>
  The second condition asks each of the two conditions to contain both topics. That each
  condition contains the topic exchanged into its position is not enough: the list need
  not have matched before the exchange.
\<close>

lemma swap_into_place_differs:
  "\<exists>m. newTopicMatcher [[Topic 0 0 0 1], [Topic 0 0 0 2]] = Inr m \<and>
       Matches m [Topic 0 0 0 2, Topic 0 0 0 1] = Inr False \<and>
       Matches m (swap_positions [Topic 0 0 0 2, Topic 0 0 0 1] 0 1) = Inr True"
proof -
  let ?m = "\<lparr>conditions = map table_of [[Topic 0 0 0 1], [Topic 0 0 0 2]]\<rparr>"
  have two: "(\<forall>k < length [[Topic 0 0 0 1], [Topic 0 0 0 2]]. P k) \<longleftrightarrow> P 0 \<and> P 1" for P
    by (auto simp: less_Suc_eq)
  have "Matches ?m [Topic 0 0 0 2, Topic 0 0 0 1] = Inr False"
    unfolding Matches_table_of two by simp
  moreover have "Matches ?m (swap_positions [Topic 0 0 0 2, Topic 0 0 0 1] 0 1) = Inr True"
    unfolding Matches_table_of two by (simp add: swap_positions_def)
  ultimately show ?thesis by (simp add: newTopicMatcher_ok)
qed

text \<open>
  C10, as amended. The result of \<open>Matches\<close> depends only on the set of topics of each
  condition given to \<open>newTopicMatcher\<close>, not on their order or multiplicity: two inputs that
  hold the same set of topics position by position compile to matchers that return the same
  result on every candidate list. Compilation yields exactly one condition per input
  condition; a topic is a key of the table at position \<open>i\<close> exactly when it occurs in input
  condition \<open>i\<close>; and \<open>Matches\<close> accepts a topic at position \<open>i\<close> exactly when input condition
  \<open>i\<close> is empty or the topic occurs in it.
\<close>

theorem newTopicMatcher_sets:
  "(\<exists>m. newTopicMatcher conds = Inr m \<and> length (conditions m) = length conds \<and>
        (\<forall>i < length conds. \<forall>t.
           map_lookup (conditions m ! i) t = Some () \<longleftrightarrow> t \<in> set (conds ! i)) \<and>
        Matches m topics =
          Inr (length conds \<le> length topics \<and>
               (\<forall>i < length conds. set (conds ! i) = {} \<or> topics ! i \<in> set (conds ! i)))) \<and>
   (map set conds = map set conds' \<longrightarrow>
      (\<exists>m m'. newTopicMatcher conds = Inr m \<and> newTopicMatcher conds' = Inr m' \<and>
              Matches m topics = Matches m' topics))"
proof -
  have "Matches \<lparr>conditions = map table_of conds\<rparr> topics =
        Matches \<lparr>conditions = map table_of conds'\<rparr> topics"
    if eq: "map set conds = map set conds'"
  proof -
    from eq have len: "length conds = length conds'" by (rule map_eq_imp_length_eq)
    have "set (conds ! k) = set (conds' ! k)" if "k < length conds" for k
      using that eq len by (metis nth_map)
    then have "conds ! k = [] \<or> topics ! k \<in> set (conds ! k) \<longleftrightarrow>
               conds' ! k = [] \<or> topics ! k \<in> set (conds' ! k)" if "k < length conds" for k
      using that by (metis set_empty)
    with len show ?thesis by (simp add: Matches_table_of cong: conj_cong)
  qed
  then show ?thesis
    by (simp add: newTopicMatcher_ok map_lookup_table_of Matches_table_of)
qed

theorem newTopicMatcher_sets_witness:
  "map set [[Topic 0 0 0 1, Topic 0 0 0 2, Topic 0 0 0 1], []] =
     map set [[Topic 0 0 0 2, Topic 0 0 0 1], []] \<and>
   (\<exists>m m'. newTopicMatcher [[Topic 0 0 0 1, Topic 0 0 0 2, Topic 0 0 0 1], []] = Inr m \<and>
           newTopicMatcher [[Topic 0 0 0 2, Topic 0 0 0 1], []] = Inr m' \<and>
           Matches m [Topic 0 0 0 2, Topic 0 0 0 5] = Inr True \<and>
           Matches m' [Topic 0 0 0 2, Topic 0 0 0 5] = Inr True \<and>
           Matches m [Topic 0 0 0 5, Topic 0 0 0 2] = Inr False \<and>
           Matches m' [Topic 0 0 0 5, Topic 0 0 0 2] = Inr False)"
proof -
  have two: "(\<forall>i < Suc (Suc 0). P i) \<longleftrightarrow> P 0 \<and> P (Suc 0)" for P
    by (auto simp: less_Suc_eq)
  from
    newTopicMatcher_sets [of "[[Topic 0 0 0 1, Topic 0 0 0 2, Topic 0 0 0 1], []]"
      "[Topic 0 0 0 2, Topic 0 0 0 5]" "[[Topic 0 0 0 2, Topic 0 0 0 1], []]"]
    newTopicMatcher_sets [of "[[Topic 0 0 0 1, Topic 0 0 0 2, Topic 0 0 0 1], []]"
      "[Topic 0 0 0 5, Topic 0 0 0 2]" "[[Topic 0 0 0 2, Topic 0 0 0 1], []]"]
  show ?thesis by (auto simp: two)
qed

text \<open>
  Without the wildcard case the statement is false: that a topic is accepted at position
  \<open>i\<close> if and only if it occurs in input set \<open>i\<close> fails at an empty input set. The matcher
  compiled from \<open>[{A}, {}]\<close> matches \<open>[A, T]\<close> although \<open>T\<close> does not occur in the second set.
\<close>

theorem newTopicMatcher_sets_counterexample:
  "(case newTopicMatcher [[Topic 1 0 0 1], []] of
      Inl p \<Rightarrow> False
    | Inr m \<Rightarrow> Matches m [Topic 1 0 0 1, Topic 9 9 9 9] = Inr True) \<and>
   Topic 9 9 9 9 \<notin> set ([[Topic 1 0 0 1], []] ! 1)"
proof -
  have two: "(\<forall>k < length [[Topic 1 0 0 1], []]. P k) \<longleftrightarrow> P 0 \<and> P 1" for P
    by (auto simp: less_Suc_eq)
  have "Matches \<lparr>conditions = map table_of [[Topic 1 0 0 1], []]\<rparr>
          [Topic 1 0 0 1, Topic 9 9 9 9] = Inr True"
    unfolding Matches_table_of two by simp
  then show ?thesis by (simp add: newTopicMatcher_ok)
qed

section \<open>The claims about topic derivation\<close>

lemma NewTopic_ok:
  assumes "4 \<le> length (Keccak256 data)"
  shows "\<exists>t. NewTopic Keccak256 data = Inr t \<and> topic_bytes t = take 4 (Keccak256 data)"
proof -
  from assms obtain w x y z rest where "Keccak256 data = w # x # y # z # rest"
    by (auto simp: Suc_le_length_iff eval_nat_numeral)
  then show ?thesis
    by (simp add: NewTopic_def slice_to_def zero_topic_def)
qed

text \<open>
  C6. \<open>NewTopic\<close> is total and deterministic: for every byte sequence \<open>data\<close>, the empty one
  included, with a digest function that returns 256 bits (32 bytes) for it, \<open>NewTopic\<close>
  succeeds and the topic is the first four bytes of the digest of \<open>data\<close>; a call with the
  same input yields the same topic.
\<close>

theorem NewTopic_digest_prefix:
  assumes "length (Keccak256 data) = 32"
  shows "\<exists>t. NewTopic Keccak256 data = Inr t \<and> topic_bytes t = take 4 (Keccak256 data) \<and>
             (\<forall>data'. data' = data \<longrightarrow> NewTopic Keccak256 data' = Inr t)"
  using assms NewTopic_ok [of Keccak256 data] by auto

theorem NewTopic_digest_prefix_witness:
  "length (take 32 ([5, 6 :: byte] @ replicate 32 9)) = 32 \<and>
   NewTopic (\<lambda>d. take 32 (d @ replicate 32 9)) [5, 6] = Inr (Topic 5 6 9 9) \<and>
   NewTopic (\<lambda>d. take 32 (d @ replicate 32 9)) [] = Inr (Topic 9 9 9 9)"
  using NewTopic_digest_prefix [of "\<lambda>d. take 32 (d @ replicate 32 9)" "[5, 6]"]
    NewTopic_digest_prefix [of "\<lambda>d. take 32 (d @ replicate 32 9)" "[]"]
  by (auto simp: NewTopic_def slice_to_def zero_topic_def eval_nat_numeral)

lemma NewTopics_loop_ok:
  assumes "i + length rest \<le> length topics"
    and "list_all2 (\<lambda>d t. NewTopic Keccak256 d = Inr t) rest ts"
  shows "NewTopics_loop Keccak256 topics i rest =
           Inr (take i topics @ ts @ drop (i + length rest) topics)"
  using assms
proof (induction rest arbitrary: topics i ts)
  case Nil
  then show ?case by simp
next
  case (Cons element rest)
  from Cons.prems(2) obtain t ts' where ts: "ts = t # ts'"
    and t: "NewTopic Keccak256 element = Inr t"
    and ts': "list_all2 (\<lambda>d t. NewTopic Keccak256 d = Inr t) rest ts'"
    by (auto simp: list_all2_Cons1)
  from Cons.prems(1) have i: "i < length topics" by simp
  then have "take (Suc i) (topics[i := t]) = take i topics @ [t]"
    by (simp add: take_Suc_conv_app_nth)
  with Cons.IH [of "Suc i" "topics[i := t]" ts'] Cons.prems(1) ts' i t ts
  show ?case by (simp add: index_set_def)
qed

lemma NewTopics_ok:
  assumes "list_all2 (\<lambda>d t. NewTopic Keccak256 d = Inr t) data ts"
  shows "NewTopics Keccak256 data = Inr ts"
proof -
  from assms have "length ts = length data" by (simp add: list_all2_lengthD)
  with NewTopics_loop_ok [of 0 data "replicate (length data) zero_topic" Keccak256 ts] assms
  show ?thesis by (simp add: NewTopics_def)
qed

text \<open>
  C7. \<open>NewTopics\<close> is the element-wise application of \<open>NewTopic\<close>: with a digest function
  that returns 32 bytes for every item, it succeeds, the output has exactly one topic per
  input item, and the topic at each index is the one \<open>NewTopic\<close> gives for the item at that
  index; this covers the empty sequence and sequences with duplicate items.
\<close>

theorem NewTopics_elementwise:
  assumes "\<forall>d \<in> set data. length (Keccak256 d) = 32"
  shows "\<exists>ts. NewTopics Keccak256 data = Inr ts \<and> length ts = length data \<and>
              (\<forall>i < length data. NewTopic Keccak256 (data ! i) = Inr (ts ! i))"
proof -
  have "\<exists>t. NewTopic Keccak256 d = Inr t" if "d \<in> set data" for d
    using that assms NewTopic_ok [of Keccak256 d] by auto
  then obtain f where f: "\<And>d. d \<in> set data \<Longrightarrow> NewTopic Keccak256 d = Inr (f d)"
    by metis
  then have "list_all2 (\<lambda>d t. NewTopic Keccak256 d = Inr t) data (map f data)"
    by (simp add: list_all2_conv_all_nth)
  then have "NewTopics Keccak256 data = Inr (map f data)" by (rule NewTopics_ok)
  with f show ?thesis by simp
qed

theorem NewTopics_elementwise_witness:
  "length (take 32 ([1, 2 :: byte] @ replicate 32 9)) = 32 \<and>
   length (take 32 ([] @ replicate 32 (9 :: byte))) = 32 \<and>
   NewTopics (\<lambda>d. take 32 (d @ replicate 32 9)) [[1, 2], [], [1, 2]] =
     Inr [Topic 1 2 9 9, Topic 9 9 9 9, Topic 1 2 9 9] \<and>
   NewTopics (\<lambda>d. take 32 (d @ replicate 32 9)) [] = Inr []"
  using NewTopics_elementwise [of "[[1, 2], [], [1, 2]]" "\<lambda>d. take 32 (d @ replicate 32 9)"]
  by (auto simp: NewTopics_def NewTopic_def slice_to_def zero_topic_def index_set_def eval_nat_numeral)

text \<open>
  C8. \<open>String\<close> renders exactly the four raw bytes of the topic: the string has length 4 and
  its characters, read as numbers, are the bytes of the topic in order; nothing is encoded
  or transformed.
\<close>

theorem String_raw_bytes:
  "length (String t) = 4 \<and> map of_char (String t) = map unat (topic_bytes t)"
proof -
  have "of_char (char_of (unat b)) = unat b" for b :: byte
  proof -
    have "unat b < 2 ^ LENGTH(8)" by (rule unsigned_less)
    then show ?thesis by simp
  qed
  then show ?thesis by (cases t) (simp add: String_def)
qed

end
